theory Spec2Isabelle
  imports Complex_Main "HOL-Library.Word" "HOL-Library.List_Lexorder" "HOL-Library.Product_Lexorder" "HOL-Library.AList" "HOL-Library.Multiset"
begin

unbundle bit_operations_syntax

section \<open>Data model\<close>

text \<open>The exceptions the modelled functions can raise.\<close>

datatype error = IndexError | ValueError | AssertionError | NameError

text \<open>A node of the syntax tree, as the code reads it: token, roles, the two positions
  and the children.\<close>

record position =
  line :: nat
  col :: nat
  offset :: nat

datatype node = Node
  (token: "8 word list")
  (roles: "nat list")
  (start_position: position)
  (end_position: position)
  (children: "node list")

text \<open>\<^verbatim>\<open>id(node)\<close>: a node is identified by its place in the tree, the list of child
  indices leading to it from the root, so that two structurally equal nodes stay distinct.\<close>

type_synonym node_id = "nat list"

definition child_entries :: "node_id \<Rightarrow> node \<Rightarrow> (node_id \<times> node) list" where
  "child_entries nid n = map (\<lambda>(i, c). (nid @ [i], c)) (enumerate 0 (children n))"

fun nodes_of :: "node \<Rightarrow> node list" where
  "nodes_of (Node t r s e cs) = Node t r s e cs # concat (map nodes_of cs)"

section \<open>Line2Nodes\<close>

type_synonym line_map = "node_id list list"

text \<open>The inner loop of the constructor, \<^verbatim>\<open>for line in range(...): lines[line - 1].append(node)\<close>;
  an index past the end of \<^verbatim>\<open>lines\<close> raises.\<close>

fun append_lines :: "line_map \<Rightarrow> node_id \<Rightarrow> nat list \<Rightarrow> error + line_map" where
  "append_lines lines nid [] = Inr lines"
| "append_lines lines nid (l # ls) =
     (if l - 1 < length lines
      then append_lines (lines[l - 1 := lines ! (l - 1) @ [nid]]) nid ls
      else Inl IndexError)"

definition visit :: "line_map \<Rightarrow> node_id \<Rightarrow> node \<Rightarrow> error + line_map" where
  "visit lines nid n =
     (if line (start_position n) > 0
      then append_lines lines nid [line (start_position n) ..< line (end_position n) + 1]
      else Inr lines)"

lemma sum_children_less: "sum_list (map size (children n)) < size n"
proof (cases n)
  case (Node t r s e cs)
  have "sum_list (map size cs) \<le> size_list size cs"
    by (induction cs) auto
  with Node show ?thesis by simp
qed

lemma size_child_entries:
  "sum_list (map (size \<circ> snd) (child_entries nid n)) = sum_list (map size (children n))"
proof -
  have "map (size \<circ> snd) (child_entries nid n)
        = map (\<lambda>x. size (snd x)) (enumerate 0 (children n))"
    by (simp add: child_entries_def case_prod_beta comp_def)
  also have "\<dots> = map size (map snd (enumerate 0 (children n)))"
    by (simp only: map_map comp_def)
  finally show ?thesis by simp
qed

text \<open>The \<^verbatim>\<open>while queue\<close> loop: the last entry is popped, the children are appended.\<close>

function l2n_loop :: "(node_id \<times> node) list \<Rightarrow> line_map \<Rightarrow> error + line_map" where
  "l2n_loop queue lines =
     (if queue = [] then Inr lines
      else case visit lines (fst (last queue)) (snd (last queue)) of
             Inl e \<Rightarrow> Inl e
           | Inr lines' \<Rightarrow>
               l2n_loop (butlast queue @ child_entries (fst (last queue)) (snd (last queue))) lines')"
  by pat_completeness auto
termination
proof (relation "measure (\<lambda>(queue, lines). sum_list (map (size \<circ> snd) queue))")
  show "wf (measure (\<lambda>(queue, lines). sum_list (map (size \<circ> snd) queue)))" by simp
next
  fix queue :: "(node_id \<times> node) list" and lines x2 :: line_map
  assume ne: "queue \<noteq> []"
  then have q: "queue = butlast queue @ [last queue]" by simp
  have "sum_list (map (size \<circ> snd) queue)
        = sum_list (map (size \<circ> snd) (butlast queue)) + size (snd (last queue))"
    by (subst q) simp
  moreover have "sum_list (map size (children (snd (last queue)))) < size (snd (last queue))"
    by (rule sum_children_less)
  ultimately show "((butlast queue @ child_entries (fst (last queue)) (snd (last queue)), x2),
                    (queue, lines))
        \<in> measure (\<lambda>(queue, lines). sum_list (map (size \<circ> snd) queue))"
    by (simp add: size_child_entries del: map_map)
qed

declare l2n_loop.simps [simp del]

definition Line2Nodes :: "nat \<Rightarrow> node \<Rightarrow> error + line_map" where
  "Line2Nodes nlines uast = l2n_loop [([], uast)] (replicate nlines [])"

text \<open>\<^verbatim>\<open>__getitem__\<close> with an integer: the nodes recorded for one line (0-based).\<close>

definition getitem :: "line_map \<Rightarrow> nat \<Rightarrow> error + node_id list" where
  "getitem lm l = (if l < length lm then Inr (lm ! l) else Inl IndexError)"

text \<open>\<^verbatim>\<open>__getitem__\<close> with a tuple \<^verbatim>\<open>(start, end)\<close>: the nodes of line \<^verbatim>\<open>start\<close> that are
  not on line \<^verbatim>\<open>start - 1\<close>, joined with the nodes of the lines strictly between, less the
  nodes of line \<^verbatim>\<open>end\<close> when that line exists.\<close>

definition getitem_range :: "line_map \<Rightarrow> nat \<times> nat \<Rightarrow> error + node_id set" where
  "getitem_range lm se =
     (case se of (start, stop) \<Rightarrow>
        if length lm \<le> start then Inl IndexError
        else if \<exists>l\<in>set [start + 1 ..< stop]. length lm \<le> l then Inl IndexError
        else Inr (((set (lm ! start)
                     - (if start > 0 then set (lm ! (start - 1)) else {}))
                   \<union> set (concat (map (\<lambda>l. lm ! l) [start + 1 ..< stop])))
                  - (if stop < length lm then set (lm ! stop) else {})))"

section \<open>adjust\_seqdiff\<close>

text \<open>A raw interval: the added lines, the removed lines, and the four line bounds.\<close>

type_synonym raw_interval = "string list \<times> string list \<times> nat \<times> nat \<times> nat \<times> nat"
type_synonym interval = "nat \<times> nat \<times> nat \<times> nat"

record scan_state =
  line_before :: nat
  line_after :: nat
  intervals :: "raw_interval list"
  interval_add :: "string list"
  interval_rm :: "string list"
  interval_start_before :: int
  interval_start_after :: int

definition scan_init :: scan_state where
  "scan_init = \<lparr>line_before = 0, line_after = 0, intervals = [], interval_add = [],
     interval_rm = [], interval_start_before = - 1, interval_start_after = - 1\<rparr>"

text \<open>One turn of the first loop. \<^verbatim>\<open>line[0]\<close> raises on an empty entry.\<close>

fun scan_step :: "scan_state \<Rightarrow> string \<Rightarrow> error + scan_state" where
  "scan_step st [] = Inl IndexError"
| "scan_step st (c # cs) =
     (if c = CHR ''+'' then
        Inr (st\<lparr>interval_start_after :=
                   (if length (interval_add st) = 0 then int (line_after st)
                    else interval_start_after st),
                 line_after := line_after st + 1,
                 interval_add := interval_add st @ [c # cs]\<rparr>)
      else if c = CHR ''-'' then
        Inr (st\<lparr>interval_start_before :=
                   (if length (interval_rm st) = 0 then int (line_before st)
                    else interval_start_before st),
                 line_before := line_before st + 1,
                 interval_rm := interval_rm st @ [c # cs]\<rparr>)
      else if interval_add st \<noteq> [] \<or> interval_rm st \<noteq> [] then
        Inr (st\<lparr>intervals := intervals st @
                   [(interval_add st, interval_rm st,
                     (if interval_start_before st > - 1 then nat (interval_start_before st)
                      else line_before st),
                     line_before st,
                     (if interval_start_after st > - 1 then nat (interval_start_after st)
                      else line_after st),
                     line_after st)],
                 interval_add := [],
                 interval_rm := [],
                 line_before := line_before st + 1,
                 line_after := line_after st + 1\<rparr>)
      else
        Inr (st\<lparr>line_before := line_before st + 1, line_after := line_after st + 1\<rparr>))"

fun scan :: "scan_state \<Rightarrow> string list \<Rightarrow> error + scan_state" where
  "scan st [] = Inr st"
| "scan st (l # ls) = (case scan_step st l of Inl e \<Rightarrow> Inl e | Inr st' \<Rightarrow> scan st' ls)"

text \<open>The \<^verbatim>\<open>while\<close> loop that counts \<^verbatim>\<open>neighbors\<close>; reading \<^verbatim>\<open>src_after\<close> past its end raises.\<close>

function count_neighbors :: "string list \<Rightarrow> string list \<Rightarrow> nat \<Rightarrow> nat \<Rightarrow> error + nat" where
  "count_neighbors src_after iadd end_after neighbors =
     (if neighbors < length iadd then
        (if end_after + neighbors < length src_after then
           (if src_after ! (end_after + neighbors) = drop 2 (iadd ! neighbors)
            then count_neighbors src_after iadd end_after (neighbors + 1)
            else Inr neighbors)
         else Inl IndexError)
      else Inr neighbors)"
  by pat_completeness auto
termination
  by (relation "measure (\<lambda>(src_after, iadd, end_after, neighbors). length iadd - neighbors)") auto

declare count_neighbors.simps [simp del]

text \<open>\<^verbatim>\<open>for l in range(...): ls.update(map(id, line2nodes[l]))\<close>.\<close>

fun line_ids :: "line_map \<Rightarrow> nat list \<Rightarrow> error + node_id set" where
  "line_ids l2n [] = Inr {}"
| "line_ids l2n (l # ls) =
     (case getitem l2n l of
        Inl e \<Rightarrow> Inl e
      | Inr ns \<Rightarrow> (case line_ids l2n ls of Inl e \<Rightarrow> Inl e | Inr S \<Rightarrow> Inr (set ns \<union> S)))"

text \<open>The body of the second loop, for one raw interval.\<close>

definition adjust_interval :: "string list \<Rightarrow> line_map \<Rightarrow> raw_interval \<Rightarrow> error + interval list" where
  "adjust_interval src_after line2nodes i =
     (case i of (iadd, irm, start_before, end_before, start_after, end_after) \<Rightarrow>
        (if length iadd \<in> {0, 1} \<and> length irm \<in> {0, 1}
         then Inr [(start_before, end_before, start_after, end_after)]
         else (case count_neighbors src_after iadd end_after 0 of
            Inl e \<Rightarrow> Inl e
          | Inr neighbors \<Rightarrow>
              (if neighbors = 0 then Inr [(start_before, end_before, start_after, end_after)]
               else (case line_ids line2nodes [start_after ..< end_after] of
                  Inl e \<Rightarrow> Inl e
                | Inr ls1 \<Rightarrow>
                    (case line_ids line2nodes
                            [start_after + neighbors ..< end_after + neighbors] of
                       Inl e \<Rightarrow> Inl e
                     | Inr ls2 \<Rightarrow>
                         (if card ls1 = card ls2
                          then Inr [(start_before, end_before, start_after, end_after)]
                          else Inr ((if end_before - start_before > 0
                                     then [(start_before, end_before, start_after, start_after)]
                                     else [])
                                    @ [(end_before + neighbors, end_before + neighbors,
                                        start_after + neighbors, end_after + neighbors)]))))))))"

fun adjust_all :: "string list \<Rightarrow> line_map \<Rightarrow> raw_interval list \<Rightarrow> error + interval list" where
  "adjust_all src_after line2nodes [] = Inr []"
| "adjust_all src_after line2nodes (i # is) =
     (case adjust_interval src_after line2nodes i of
        Inl e \<Rightarrow> Inl e
      | Inr out \<Rightarrow> (case adjust_all src_after line2nodes is of
                      Inl e \<Rightarrow> Inl e
                    | Inr rest \<Rightarrow> Inr (out @ rest)))"

definition raw_intervals :: "string list \<Rightarrow> error + raw_interval list" where
  "raw_intervals seqdiff =
     (case scan scan_init seqdiff of Inl e \<Rightarrow> Inl e | Inr st \<Rightarrow> Inr (intervals st))"

definition adjust_seqdiff :: "string list \<Rightarrow> string list \<Rightarrow> line_map \<Rightarrow> error + interval list" where
  "adjust_seqdiff seqdiff src_after line2nodes =
     (case raw_intervals seqdiff of
        Inl e \<Rightarrow> Inl e
      | Inr ivs \<Rightarrow> adjust_all src_after line2nodes ivs)"

section \<open>External collaborators\<close>

text \<open>The library functions the program calls are parameters of the model:
  \<^verbatim>\<open>farmhash.hash128withseed\<close>; the permutation \<^verbatim>\<open>numpy.random\<close> draws after
  \<^verbatim>\<open>numpy.random.seed(seed)\<close> for a population of a given size (\<^verbatim>\<open>choice(a, size, replace=False)\<close>
  returns the elements of \<^verbatim>\<open>a\<close> at the first \<^verbatim>\<open>size\<close> positions of that permutation);
  \<^verbatim>\<open>difflib.Differ().compare\<close>; and the row assignment of \<^verbatim>\<open>lapjv.lapjv\<close>.

  So is the order in which Python walks a set. The program walks sets of \<^verbatim>\<open>id(node)\<close>
  addresses, of index pairs and of indices; the order comes from the hash table, for
  addresses from where the objects happen to lie in memory, and the inputs do not fix it.
  For each set the collaborator gives every member a rank, and the walk lists the members
  by rank (members of equal rank in ascending order). Every enumeration of a finite set
  without repetition is the walk for some ranks, and every choice of ranks gives one.\<close>

record env =
  hash128withseed :: "8 word list \<Rightarrow> nat \<Rightarrow> nat \<Rightarrow> 64 word \<times> 64 word"
  permutation :: "nat \<Rightarrow> nat \<Rightarrow> nat list"
  compare :: "string list \<Rightarrow> string list \<Rightarrow> string list"
  lapjv :: "int list list \<Rightarrow> nat list"
  id_rank :: "nat list set \<Rightarrow> nat list \<Rightarrow> nat"
  pair_rank :: "(nat \<times> nat) set \<Rightarrow> nat \<times> nat \<Rightarrow> nat"
  index_rank :: "nat set \<Rightarrow> nat \<Rightarrow> nat"

text \<open>\<^verbatim>\<open>for x in s\<close> over a set: the members in the order of their ranks.\<close>

definition walk :: "('a::linorder set \<Rightarrow> 'a \<Rightarrow> nat) \<Rightarrow> 'a set \<Rightarrow> 'a list" where
  "walk rank s = sort_key (rank s) (sorted_list_of_set s)"

text \<open>\<^verbatim>\<open>numpy.random.choice(a, size, replace=False)\<close> raises when the sample is larger than
  the population.\<close>

definition np_choice :: "env \<Rightarrow> nat \<Rightarrow> 'a list \<Rightarrow> int \<Rightarrow> error + 'a list" where
  "np_choice E seed a n =
     (if n < 0 \<or> int (length a) < n then Inl ValueError
      else Inr (map (\<lambda>k. a ! k) (take (nat n) (permutation E seed (length a)))))"

section \<open>hash\_node\<close>

definition HASH_SIZE :: int where
  "HASH_SIZE = 16"

text \<open>A sketch is a weight and a byte string; the fingerprint map is a dictionary in
  insertion order.\<close>

type_synonym sketch = "int \<times> 8 word list"
type_synonym fmap = "(node_id \<times> 8 word list) list"

definition seed1_of :: "nat list \<Rightarrow> nat" where
  "seed1_of rs =
     fold (\<lambda>i seed1. seed1 OR push_bit (push_bit 3 i) (rs ! i)) [0 ..< min 4 (length rs)] 0"

definition seed2_of :: "nat list \<Rightarrow> nat" where
  "seed2_of rs =
     (if length rs > 4
      then fold (\<lambda>i seed2. seed2 OR push_bit (push_bit 3 i) (rs ! (i + 4)))
             [0 ..< min 4 (length rs - 4)] 0
      else 0)"

text \<open>\<^verbatim>\<open>h.to_bytes(8, "little")\<close>.\<close>

definition to_bytes_le :: "64 word \<Rightarrow> 8 word list" where
  "to_bytes_le h = map (\<lambda>k. ucast (drop_bit (8 * k) h)) [0 ..< 8]"

definition hash_self :: "env \<Rightarrow> node_id set \<Rightarrow> node_id \<Rightarrow> node \<Rightarrow> sketch" where
  "hash_self E white_list nid n =
     (if line (start_position n) = 0 \<or> nid \<notin> white_list then (0, [])
      else case hash128withseed E (token n) (seed1_of (roles n)) (seed2_of (roles n)) of
             (h1, h2) \<Rightarrow> (1, to_bytes_le h1 @ to_bytes_le h2))"

text \<open>The \<^verbatim>\<open>for s, i in ss2\<close> loop of the balance pass, with its \<^verbatim>\<open>break\<close>; the state is
  \<^verbatim>\<open>(sample_sizes, delta, possible)\<close>.\<close>

fun balance_pass :: "(int \<times> nat) list \<Rightarrow> int \<Rightarrow> int list \<times> int \<times> bool \<Rightarrow> int list \<times> int \<times> bool" where
  "balance_pass [] fix st = st"
| "balance_pass ((s, i) # rest) fix (sample_sizes, delta, possible) =
     (if sample_sizes ! i < 2 \<and> fix < 0
      then balance_pass rest fix (sample_sizes, delta, possible)
      else if delta - fix = 0
           then (sample_sizes[i := sample_sizes ! i + fix], delta - fix, True)
           else balance_pass rest fix (sample_sizes[i := sample_sizes ! i + fix], delta - fix, True))"

lemma balance_pass_delta:
  "balance_pass ss2 (if delta > 0 then 1 else - 1) (sizes, delta, p) = (sizes', delta', p')
   \<Longrightarrow> delta \<noteq> 0
   \<Longrightarrow> \<bar>delta'\<bar> \<le> \<bar>delta\<bar> \<and> (p' \<and> \<not> p \<longrightarrow> \<bar>delta'\<bar> < \<bar>delta\<bar>)"
proof (induction ss2 arbitrary: sizes delta p)
  case Nil
  then show ?case by simp
next
  case (Cons a ss2)
  obtain s i where a: "a = (s, i)" by (cases a)
  let ?fix = "if delta > 0 then 1 else (- 1 :: int)"
  show ?case
  proof (cases "sizes ! i < 2 \<and> ?fix < 0")
    case True
    with Cons.prems a have "balance_pass ss2 ?fix (sizes, delta, p) = (sizes', delta', p')"
      by simp
    from Cons.IH [OF this Cons.prems(2)] show ?thesis .
  next
    case skip: False
    show ?thesis
    proof (cases "delta - ?fix = 0")
      case True
      with Cons.prems a skip show ?thesis by (auto split: if_splits)
    next
      case False
      have fx: "(if delta - ?fix > 0 then 1 else (- 1 :: int)) = ?fix"
        using False Cons.prems(2) by auto
      from Cons.prems a skip False
      have "balance_pass ss2 ?fix (sizes[i := sizes ! i + ?fix], delta - ?fix, True)
              = (sizes', delta', p')"
        by (simp split: if_splits)
      then have "balance_pass ss2 (if delta - ?fix > 0 then 1 else - 1)
                   (sizes[i := sizes ! i + ?fix], delta - ?fix, True) = (sizes', delta', p')"
        by (simp only: fx)
      from Cons.IH [OF this False]
      have "\<bar>delta'\<bar> \<le> \<bar>delta - ?fix\<bar>" by simp
      moreover have "\<bar>delta - ?fix\<bar> < \<bar>delta\<bar>" using Cons.prems(2) by auto
      ultimately show ?thesis by simp
    qed
  qed
qed

text \<open>The \<^verbatim>\<open>while delta != 0 and possible\<close> loop. The source sets
  \<^verbatim>\<open>fix = 1 if delta > 0 else -1\<close> once, before the loop; \<^verbatim>\<open>delta\<close> keeps its sign until it
  reaches 0, so reading \<^verbatim>\<open>fix\<close> off \<^verbatim>\<open>delta\<close> in each turn gives the same value.\<close>

function balance :: "(int \<times> nat) list \<Rightarrow> int list \<Rightarrow> int \<Rightarrow> bool \<Rightarrow> int list \<times> bool" where
  "balance ss2 sample_sizes delta possible =
     (if delta \<noteq> 0 \<and> possible
      then case balance_pass ss2 (if delta > 0 then 1 else - 1) (sample_sizes, delta, False) of
             (sample_sizes', delta', possible') \<Rightarrow> balance ss2 sample_sizes' delta' possible'
      else (sample_sizes, possible))"
  by pat_completeness auto
termination
proof (relation "measure (\<lambda>(ss2, sizes, delta, possible).
                            if possible \<and> delta \<noteq> 0 then nat \<bar>delta\<bar> + 1 else 0)",
       goal_cases)
  case 1
  show ?case by simp
next
  case (2 ss2 sample_sizes delta possible x y xa ya)
  then have e: "balance_pass ss2 (if delta > 0 then 1 else - 1) (sample_sizes, delta, False)
               = (x, xa, ya)" by simp
  from balance_pass_delta [OF e] 2
  have "\<bar>xa\<bar> \<le> \<bar>delta\<bar>" "ya \<longrightarrow> \<bar>xa\<bar> < \<bar>delta\<bar>" by auto
  moreover from 2 have "delta \<noteq> 0" "possible" by auto
  ultimately show ?case by (simp add: e)
qed

declare balance.simps [simp del]

text \<open>The emergency allocation: 15 of the entries but the last are drawn, each gets one
  sample, and so does the last entry.\<close>

definition emergency :: "env \<Rightarrow> nat \<Rightarrow> int list \<Rightarrow> error + int list" where
  "emergency E seed sample_sizes =
     (case np_choice E seed [0 ..< length sample_sizes - 1] 15 of
        Inl e \<Rightarrow> Inl e
      | Inr choice \<Rightarrow>
          (let marked = fold (\<lambda>i ss. ss[i := 1]) choice (map (\<lambda>_. 0) sample_sizes)
           in if marked = [] then Inl IndexError
              else Inr (marked[length marked - 1 := 1])))"

text \<open>The block under \<^verbatim>\<open>if delta != 0\<close>.\<close>

definition allocate :: "env \<Rightarrow> nat \<Rightarrow> int list \<Rightarrow> error + int list" where
  "allocate E seed sample_sizes =
     (let delta = HASH_SIZE - sum_list sample_sizes in
      if delta \<noteq> 0 then
        (let ss2 = rev (sort (map (\<lambda>(i, s). (s, i)) (enumerate 0 sample_sizes)))
         in case balance ss2 sample_sizes delta True of
              (sample_sizes', possible) \<Rightarrow>
                if possible
                then (if \<forall>s\<in>set sample_sizes'. s > 0 then Inr sample_sizes'
                      else Inl AssertionError)
                else emergency E seed sample_sizes')
      else Inr sample_sizes)"

text \<open>The sampling loop over \<^verbatim>\<open>zip(inner_hashes, sample_sizes)\<close>.\<close>

fun draw :: "env \<Rightarrow> nat \<Rightarrow> (sketch \<times> int) list \<Rightarrow> error + 8 word list list" where
  "draw E seed [] = Inr []"
| "draw E seed ((h, s) # rest) =
     (if fst h = 0 then draw E seed rest
      else case np_choice E seed (sort (snd h)) s of
             Inl e \<Rightarrow> Inl e
           | Inr choice \<Rightarrow>
               (case draw E seed rest of
                  Inl e \<Rightarrow> Inl e
                | Inr choices \<Rightarrow> Inr (choice # choices)))"

text \<open>The body of \<^verbatim>\<open>hash_node\<close> for a node with children, once \<^verbatim>\<open>inner_hashes\<close> is
  known. The test \<^verbatim>\<open>weights == 0\<close> of the source compares a list with a number and is
  never true, so it has no branch here. \<^verbatim>\<open>numpy.hstack\<close> raises on an empty list.\<close>

definition combine :: "env \<Rightarrow> nat \<Rightarrow> node_id set \<Rightarrow> node_id \<Rightarrow> sketch list \<Rightarrow> fmap
    \<Rightarrow> error + (sketch \<times> fmap)" where
  "combine E seed white_list nid inner_hashes mapping =
     (if nid \<notin> white_list then Inr ((0, []), mapping)
      else
        (let weights = filter (\<lambda>w. w > 0) (map fst inner_hashes);
             total = sum_list weights;
             sample_sizes = map (\<lambda>w. max 1 ((w * HASH_SIZE) div total)) weights
         in case allocate E seed sample_sizes of
              Inl e \<Rightarrow> Inl e
            | Inr sample_sizes' \<Rightarrow>
                (case draw E seed (zip inner_hashes sample_sizes') of
                   Inl e \<Rightarrow> Inl e
                 | Inr choices \<Rightarrow>
                     if choices = [] then Inl ValueError
                     else Inr ((total, concat choices),
                               AList.update nid (concat choices) mapping))))"

fun hash_node :: "env \<Rightarrow> nat \<Rightarrow> node_id set \<Rightarrow> node_id \<Rightarrow> node \<Rightarrow> fmap
    \<Rightarrow> error + (sketch \<times> fmap)"
and hash_children :: "env \<Rightarrow> nat \<Rightarrow> node_id set \<Rightarrow> node_id \<Rightarrow> nat \<Rightarrow> node list \<Rightarrow> fmap
    \<Rightarrow> error + (sketch list \<times> fmap)" where
  "hash_node E seed white_list nid (Node t r sp ep cs) mapping =
     (if cs = [] then
        (let h = hash_self E white_list nid (Node t r sp ep cs)
         in Inr (h, if fst h > 0 then AList.update nid (snd h) mapping else mapping))
      else case hash_children E seed white_list nid 0 cs mapping of
             Inl e \<Rightarrow> Inl e
           | Inr (hs, mapping') \<Rightarrow>
               combine E seed white_list nid
                 (hs @ [hash_self E white_list nid (Node t r sp ep cs)]) mapping')"
| "hash_children E seed white_list nid k [] mapping = Inr ([], mapping)"
| "hash_children E seed white_list nid k (c # cs) mapping =
     (case hash_node E seed white_list (nid @ [k]) c mapping of
        Inl e \<Rightarrow> Inl e
      | Inr (h, mapping') \<Rightarrow>
          (case hash_children E seed white_list nid (k + 1) cs mapping' of
             Inl e \<Rightarrow> Inl e
           | Inr (hs, mapping'') \<Rightarrow> Inr (h # hs, mapping'')))"

section \<open>Distances\<close>

type_synonym matrix = "int list list"
type_synonym supermap = "node_id \<Rightarrow> 8 word list"

text \<open>The first round's matrix: \<^verbatim>\<open>2 * HASH_SIZE * nseeds\<close> everywhere, \<^verbatim>\<open>HASH_SIZE * nseeds\<close>
  in the two off-diagonal blocks. The entries are whole numbers, held as integers.\<close>

definition init_dists :: "nat \<Rightarrow> nat \<Rightarrow> nat \<Rightarrow> matrix" where
  "init_dists n1 n2 nseeds =
     map (\<lambda>i. map (\<lambda>j. if (i < n1 \<and> n1 \<le> j) \<or> (n1 \<le> i \<and> j < n1)
                        then HASH_SIZE * int nseeds else 2 * HASH_SIZE * int nseeds)
                [0 ..< n1 + n2])
         [0 ..< n1 + n2]"

text \<open>\<^verbatim>\<open>byte_matches[b]\<close>: the indices of the after-fingerprints that hold byte \<^verbatim>\<open>b\<close>.\<close>

definition byte_matches :: "fmap \<Rightarrow> 8 word \<Rightarrow> nat list" where
  "byte_matches fmap2 b = map fst (filter (\<lambda>(i, k, h). b \<in> set h) (enumerate 0 fmap2))"

definition candidates :: "fmap \<Rightarrow> 8 word list \<Rightarrow> int list" where
  "candidates fmap2 h =
     fold (\<lambda>b cand. fold (\<lambda>j c. c[j := c ! j - 1]) (byte_matches fmap2 b) cand) h
          (replicate (length fmap2) 0)"

text \<open>\<^verbatim>\<open>target += operand\<close> on a one-dimensional slice: the lengths agree, or the operand
  has one element, or the shapes do not broadcast.\<close>

definition np_iadd :: "int list \<Rightarrow> int list \<Rightarrow> error + int list" where
  "np_iadd xs cs =
     (if length cs = length xs then Inr (map (\<lambda>(x, c). x + c) (zip xs cs))
      else if length cs = 1 then Inr (map (\<lambda>x. x + cs ! 0) xs)
      else Inl ValueError)"

definition add_row :: "matrix \<Rightarrow> nat \<Rightarrow> nat \<Rightarrow> int list \<Rightarrow> error + matrix" where
  "add_row D i n1 cand =
     (if length D \<le> i then Inl IndexError
      else case np_iadd (drop n1 (D ! i)) cand of
             Inl e \<Rightarrow> Inl e
           | Inr r \<Rightarrow> Inr (D[i := take n1 (D ! i) @ r]))"

definition add_col :: "matrix \<Rightarrow> nat \<Rightarrow> nat \<Rightarrow> int list \<Rightarrow> error + matrix" where
  "add_col D i n1 cand =
     (if length D \<le> i then Inl IndexError
      else case np_iadd (map (\<lambda>row. row ! i) (drop n1 D)) cand of
             Inl e \<Rightarrow> Inl e
           | Inr r \<Rightarrow> Inr (take n1 D @ map (\<lambda>(row, v). row[i := v]) (zip (drop n1 D) r)))"

text \<open>The loop over \<^verbatim>\<open>map1.items()\<close> of one round.\<close>

fun accumulate :: "matrix \<Rightarrow> fmap \<Rightarrow> nat \<Rightarrow> nat \<Rightarrow> fmap \<Rightarrow> error + matrix" where
  "accumulate D [] i n1 fmap2 = Inr D"
| "accumulate D ((k, h) # rest) i n1 fmap2 =
     (case add_row D i n1 (candidates fmap2 h) of
        Inl e \<Rightarrow> Inl e
      | Inr D' \<Rightarrow>
          (case add_col D' i n1 (candidates fmap2 h) of
             Inl e \<Rightarrow> Inl e
           | Inr D'' \<Rightarrow> accumulate D'' rest (i + 1) n1 fmap2))"

definition add_supermap :: "supermap \<Rightarrow> fmap \<Rightarrow> supermap" where
  "add_supermap sm m = fold (\<lambda>(k, h) sm'. sm'(k := sm' k @ h)) m sm"

text \<open>The state carried from round to round; \<^verbatim>\<open>fmap1\<close> and \<^verbatim>\<open>fmap2\<close> are the
  \<^verbatim>\<open>map1\<close> and \<^verbatim>\<open>map2\<close> of the last round.\<close>

record round_state =
  dists :: "matrix option"
  supermap1 :: supermap
  supermap2 :: supermap
  fmap1 :: fmap
  fmap2 :: fmap

definition hash_round :: "env \<Rightarrow> node \<Rightarrow> node \<Rightarrow> node_id set \<Rightarrow> node_id set \<Rightarrow> nat \<Rightarrow> nat
    \<Rightarrow> round_state \<Rightarrow> error + round_state" where
  "hash_round E uast1 uast2 white_list1 white_list2 nseeds seed st =
     (case hash_node E seed white_list1 [] uast1 [] of
        Inl e \<Rightarrow> Inl e
      | Inr (h1, m1) \<Rightarrow>
          (case hash_node E seed white_list2 [] uast2 [] of
             Inl e \<Rightarrow> Inl e
           | Inr (h2, m2) \<Rightarrow>
               (case accumulate
                       (case dists st of
                          None \<Rightarrow> init_dists (length m1) (length m2) nseeds
                        | Some D \<Rightarrow> D)
                       m1 0 (length m1) m2 of
                  Inl e \<Rightarrow> Inl e
                | Inr D' \<Rightarrow>
                    Inr \<lparr>dists = Some D',
                         supermap1 = add_supermap (supermap1 st) m1,
                         supermap2 = add_supermap (supermap2 st) m2,
                         fmap1 = m1, fmap2 = m2\<rparr>)))"

fun hash_rounds :: "env \<Rightarrow> node \<Rightarrow> node \<Rightarrow> node_id set \<Rightarrow> node_id set \<Rightarrow> nat \<Rightarrow> nat list
    \<Rightarrow> round_state \<Rightarrow> error + round_state" where
  "hash_rounds E uast1 uast2 white_list1 white_list2 nseeds [] st = Inr st"
| "hash_rounds E uast1 uast2 white_list1 white_list2 nseeds (seed # seeds) st =
     (case hash_round E uast1 uast2 white_list1 white_list2 nseeds seed st of
        Inl e \<Rightarrow> Inl e
      | Inr st' \<Rightarrow> hash_rounds E uast1 uast2 white_list1 white_list2 nseeds seeds st')"

section \<open>The edit script\<close>

datatype op = Add node_id | Delete node_id | Modify node_id node_id

text \<open>\<^verbatim>\<open>set(enumerate(row_ind[:len(map1)]))\<close>.\<close>

definition assigned :: "nat \<Rightarrow> nat list \<Rightarrow> (nat \<times> nat) set" where
  "assigned n1 row_ind = set (enumerate 0 (take n1 row_ind))"

definition deleted :: "real \<Rightarrow> nat \<Rightarrow> matrix \<Rightarrow> nat \<Rightarrow> nat list \<Rightarrow> (nat \<times> nat) set" where
  "deleted threshold nseeds D n1 row_ind =
     Set.filter (\<lambda>(i, j). j < n1 \<or> real_of_int (D ! i ! j) > threshold * real nseeds)
       (assigned n1 row_ind)"

definition exact :: "node_id list \<Rightarrow> node_id list \<Rightarrow> supermap \<Rightarrow> supermap \<Rightarrow> nat \<Rightarrow> nat list
    \<Rightarrow> (nat \<times> nat) set" where
  "exact seq1 seq2 sm1 sm2 n1 row_ind =
     Set.filter (\<lambda>(i, j). n1 \<le> j \<and> sm1 (seq1 ! i) = sm2 (seq2 ! (j - n1)))
       (assigned n1 row_ind)"

definition added :: "real \<Rightarrow> nat \<Rightarrow> matrix \<Rightarrow> nat \<Rightarrow> nat list \<Rightarrow> nat set" where
  "added threshold nseeds D n1 row_ind =
     set [n1 ..< length row_ind]
       - snd ` (assigned n1 row_ind - deleted threshold nseeds D n1 row_ind)"

definition modified :: "real \<Rightarrow> nat \<Rightarrow> matrix \<Rightarrow> node_id list \<Rightarrow> node_id list \<Rightarrow> supermap
    \<Rightarrow> supermap \<Rightarrow> nat \<Rightarrow> nat list \<Rightarrow> (nat \<times> nat) set" where
  "modified threshold nseeds D seq1 seq2 sm1 sm2 n1 row_ind =
     assigned n1 row_ind - deleted threshold nseeds D n1 row_ind
       - exact seq1 seq2 sm1 sm2 n1 row_ind"

text \<open>The script compiler. The indexing \<^verbatim>\<open>dists[i, j]\<close> and \<^verbatim>\<open>seq2[j - len(map1)]\<close> raises
  out of range. The three loops walk the sets \<^verbatim>\<open>deleted\<close>, \<^verbatim>\<open>added\<close> and the remaining
  pairs.\<close>

definition compile_script :: "env \<Rightarrow> real \<Rightarrow> nat \<Rightarrow> matrix \<Rightarrow> nat list \<Rightarrow> node_id list
    \<Rightarrow> node_id list \<Rightarrow> supermap \<Rightarrow> supermap \<Rightarrow> error + op list" where
  "compile_script E threshold nseeds D row_ind seq1 seq2 sm1 sm2 =
     (let n1 = length seq1 in
      if \<exists>(i, j)\<in>assigned n1 row_ind. n1 \<le> j \<and> (length D \<le> i \<or> length (D ! i) \<le> j)
      then Inl IndexError
      else if \<exists>(i, j)\<in>assigned n1 row_ind. n1 \<le> j \<and> length seq2 \<le> j - n1
      then Inl IndexError
      else if \<exists>j\<in>added threshold nseeds D n1 row_ind. length seq2 \<le> j - n1
      then Inl IndexError
      else Inr
        (map (\<lambda>(i, j). Delete (seq1 ! i))
           (walk (pair_rank E) (deleted threshold nseeds D n1 row_ind))
         @ map (\<lambda>j. Add (seq2 ! (j - n1)))
             (walk (index_rank E) (added threshold nseeds D n1 row_ind))
         @ map (\<lambda>(i, j). Modify (seq1 ! i) (seq2 ! (j - n1)))
             (walk (pair_rank E)
                (modified threshold nseeds D seq1 seq2 sm1 sm2 n1 row_ind))))"

section \<open>treediff\<close>

text \<open>\<^verbatim>\<open>str.splitlines(True)\<close> on a text whose characters are code points below 256: a line
  ends after a line boundary, which stays in the line; CR LF is one boundary.\<close>

definition is_linebreak :: "char \<Rightarrow> bool" where
  "is_linebreak c \<longleftrightarrow>
     c \<in> {CHR 0x0A, CHR 0x0B, CHR 0x0C, CHR 0x0D, CHR 0x1C, CHR 0x1D, CHR 0x1E, CHR 0x85}"

fun splitlines_from :: "string \<Rightarrow> string \<Rightarrow> string list" where
  "splitlines_from cur [] = (if cur = [] then [] else [cur])"
| "splitlines_from cur [c] = [cur @ [c]]"
| "splitlines_from cur (c # d # cs) =
     (if c = CHR 0x0D \<and> d = CHR 0x0A then (cur @ [c, d]) # splitlines_from [] cs
      else if is_linebreak c then (cur @ [c]) # splitlines_from [] (d # cs)
      else splitlines_from (cur @ [c]) (d # cs))"

definition splitlines :: "string \<Rightarrow> string list" where
  "splitlines src = splitlines_from [] src"

fun filter_changed :: "(nat \<times> nat) list \<Rightarrow> line_map \<Rightarrow> error + node_id set" where
  "filter_changed [] line2node = Inr {}"
| "filter_changed (lr # lines) line2node =
     (case getitem_range line2node lr of
        Inl e \<Rightarrow> Inl e
      | Inr ns \<Rightarrow>
          (case filter_changed lines line2node of
             Inl e \<Rightarrow> Inl e
           | Inr preserved \<Rightarrow> Inr (ns \<union> preserved)))"

text \<open>The first half of \<^verbatim>\<open>treediff\<close>, up to the two white lists.\<close>

definition white_lists :: "env \<Rightarrow> string \<Rightarrow> node \<Rightarrow> string \<Rightarrow> node
    \<Rightarrow> error + (node_id set \<times> node_id set)" where
  "white_lists E src1 uast1 src2 uast2 =
     (case Line2Nodes (length (splitlines src1)) uast1 of
        Inl e \<Rightarrow> Inl e
      | Inr line2nodes_before \<Rightarrow>
      (case Line2Nodes (length (splitlines src2)) uast2 of
        Inl e \<Rightarrow> Inl e
      | Inr line2nodes_after \<Rightarrow>
      (case adjust_seqdiff (compare E (splitlines src1) (splitlines src2)) (splitlines src2)
              line2nodes_after of
        Inl e \<Rightarrow> Inl e
      | Inr adjusted_diff \<Rightarrow>
      (case filter_changed (map (\<lambda>(sb, eb, sa, ea). (sb, eb)) adjusted_diff)
              line2nodes_before of
        Inl e \<Rightarrow> Inl e
      | Inr white_list1 \<Rightarrow>
      (case filter_changed (map (\<lambda>(sb, eb, sa, ea). (sa, ea)) adjusted_diff)
              line2nodes_after of
        Inl e \<Rightarrow> Inl e
      | Inr white_list2 \<Rightarrow> Inr (white_list1, white_list2))))))"

text \<open>The state before the first round: no matrix yet, empty supersketches.\<close>

definition round_init :: round_state where
  "round_init =
     \<lparr>dists = None, supermap1 = (\<lambda>k. []), supermap2 = (\<lambda>k. []), fmap1 = [], fmap2 = []\<rparr>"

text \<open>The second half, for two non-empty white lists. With \<^verbatim>\<open>nseeds = 0\<close> the loop body
  never runs and \<^verbatim>\<open>map1\<close> is unbound after it.\<close>

definition match_nodes :: "env \<Rightarrow> node \<Rightarrow> node \<Rightarrow> node_id set \<Rightarrow> node_id set \<Rightarrow> nat
    \<Rightarrow> error + op list" where
  "match_nodes E uast1 uast2 white_list1 white_list2 nseeds =
     (case hash_rounds E uast1 uast2 white_list1 white_list2 nseeds [0 ..< nseeds] round_init of
        Inl e \<Rightarrow> Inl e
      | Inr st \<Rightarrow>
          (case dists st of
             None \<Rightarrow> Inl NameError
           | Some D \<Rightarrow>
               compile_script E (real_of_int HASH_SIZE / 2) nseeds D (lapjv E D)
                 (map fst (fmap1 st)) (map fst (fmap2 st)) (supermap1 st) (supermap2 st)))"

definition treediff :: "env \<Rightarrow> string \<Rightarrow> node \<Rightarrow> string \<Rightarrow> node \<Rightarrow> nat \<Rightarrow> error + op list" where
  "treediff E src1 uast1 src2 uast2 nseeds =
     (case white_lists E src1 uast1 src2 uast2 of
        Inl e \<Rightarrow> Inl e
      | Inr (white_list1, white_list2) \<Rightarrow>
          if card white_list1 = 0
          then Inr (map Add (walk (id_rank E) white_list2))
          else if card white_list2 = 0
          then Inr (map Delete (walk (id_rank E) white_list1))
          else match_nodes E uast1 uast2 white_list1 white_list2 nseeds)"

section \<open>Auxiliary definitions\<close>

text \<open>A node fits a source of \<^verbatim>\<open>nlines\<close> lines when the lines it covers, if any, exist.\<close>

definition fits :: "nat \<Rightarrow> node \<Rightarrow> bool" where
  "fits nlines n =
     (0 < line (start_position n) \<and> line (start_position n) \<le> line (end_position n)
        \<longrightarrow> line (end_position n) \<le> nlines)"

definition queue_fits :: "nat \<Rightarrow> (node_id \<times> node) list \<Rightarrow> bool" where
  "queue_fits nlines queue = (\<forall>q\<in>set queue. \<forall>m\<in>set (nodes_of (snd q)). fits nlines m)"

subsection \<open>Sample inputs\<close>

text \<open>A line diff for the samples: the common head and tail are unchanged, the lines between
  are removed and then added. On the sample texts below it gives what
  \<^verbatim>\<open>Differ().compare\<close> gives.\<close>

fun common_prefix :: "'a list \<Rightarrow> 'a list \<Rightarrow> nat" where
  "common_prefix (x # xs) (y # ys) = (if x = y then Suc (common_prefix xs ys) else 0)"
| "common_prefix _ _ = 0"

definition sample_compare :: "string list \<Rightarrow> string list \<Rightarrow> string list" where
  "sample_compare a b =
     (let p = common_prefix a b;
          s = common_prefix (rev (drop p a)) (rev (drop p b))
      in map (\<lambda>l. ''  '' @ l) (take p a)
         @ map (\<lambda>l. ''- '' @ l) (take (length a - p - s) (drop p a))
         @ map (\<lambda>l. ''+ '' @ l) (take (length b - p - s) (drop p b))
         @ map (\<lambda>l. ''  '' @ l) (drop (length a - s) a))"

text \<open>Sample collaborators: a hash of the token length and the seeds, the identity
  permutation, the line diff above, the assignment that pairs row \<^verbatim>\<open>i\<close> of the first
  half with column \<^verbatim>\<open>i\<close> of the second half and back, and set walks in ascending
  order.\<close>

definition sample_env :: env where
  "sample_env =
     \<lparr>hash128withseed = (\<lambda>tok s1 s2. (word_of_nat (s1 + length tok), word_of_nat s2)),
      permutation = (\<lambda>seed n. [0 ..< n]),
      compare = sample_compare,
      lapjv = (\<lambda>D. map (\<lambda>i. (i + length D div 2) mod length D) [0 ..< length D]),
      id_rank = (\<lambda>s x. 0),
      pair_rank = (\<lambda>s x. 0),
      index_rank = (\<lambda>s x. 0)\<rparr>"

definition pos :: "nat \<Rightarrow> position" where
  "pos l = \<lparr>line = l, col = 0, offset = 0\<rparr>"

definition leaf :: "nat \<Rightarrow> nat \<Rightarrow> node" where
  "leaf s e = Node [] [] (pos s) (pos e) []"

definition src_ab :: string where
  "src_ab = ''a'' @ [CHR 0x0A] @ ''b''"

definition src_axb :: string where
  "src_axb = ''a'' @ [CHR 0x0A] @ ''x'' @ [CHR 0x0A] @ ''b''"

definition tree3 :: node where
  "tree3 = Node [] [] (pos 0) (pos 0) [leaf 1 1, leaf 2 2, leaf 3 3]"

subsection \<open>Counting operations\<close>

fun is_delete :: "op \<Rightarrow> bool" where
  "is_delete (Delete n) = True"
| "is_delete _ = False"

fun is_modify :: "op \<Rightarrow> bool" where
  "is_modify (Modify n m) = True"
| "is_modify _ = False"

definition count_delete :: "op list \<Rightarrow> nat" where
  "count_delete script = length (filter is_delete script)"

definition count_modify :: "op list \<Rightarrow> nat" where
  "count_modify script = length (filter is_modify script)"

subsection \<open>More sample inputs\<close>

text \<open>A distance matrix for one node on each side, the two sharing 6 bytes in one round.\<close>

definition dists2 :: matrix where
  "dists2 = [[32, 10], [10, 32]]"

text \<open>An after-tree of three statements on lines 2, 3 and 4 to 5, its line index, the
  after-source and a line diff that inserts lines 2 and 3 before an equal line.\<close>

definition tree6 :: node where
  "tree6 = Node [] [] (pos 0) (pos 0) [leaf 2 2, leaf 3 3, leaf 4 5]"

definition line_map6 :: line_map where
  "line_map6 = [[], [[0]], [[1]], [[2]], [[2]], []]"

definition src6 :: "string list" where
  "src6 = [''p'', ''q'', ''r'', ''q'', ''s'', ''t'']"

definition seqdiff6 :: "string list" where
  "seqdiff6 = [''  p'', ''+ q'', ''+ r'', ''  q'', ''  s'', ''  t'']"

text \<open>A tree on line 1 with four leaves, the second and third without position; the
  white list of its positioned nodes; two sources that differ in line 1 and their line
  diff; and the first round's matrix for three nodes on each side.\<close>

definition tree_p :: node where
  "tree_p = Node [] [] (pos 1) (pos 1) [leaf 1 1, leaf 0 0, leaf 0 0, leaf 1 1]"

definition white_list_p :: "node_id set" where
  "white_list_p = {[], [0], [3]}"

definition src_cb :: string where
  "src_cb = ''c'' @ [CHR 0x0A] @ ''b''"

definition seqdiff_p :: "string list" where
  "seqdiff_p = [''- a'' @ [CHR 0x0A], ''+ c'' @ [CHR 0x0A], ''  b'']"

definition dists_p :: matrix where
  "dists_p =
     [[32, 32, 32, 16, 16, 16], [32, 32, 32, 16, 16, 16], [32, 32, 32, 16, 16, 16],
      [16, 16, 16, 32, 32, 32], [16, 16, 16, 32, 32, 32], [16, 16, 16, 32, 32, 32]]"





section \<open>Properties\<close>

subsection \<open>Line2Nodes\<close>

lemma append_lines_length:
  "append_lines lines nid ls = Inr lines' \<Longrightarrow> length lines' = length lines"
  by (induction ls arbitrary: lines) (auto split: if_splits)

lemma append_lines_Inr_iff:
  "(\<exists>lines'. append_lines lines nid ls = Inr lines') \<longleftrightarrow> (\<forall>l\<in>set ls. l - 1 < length lines)"
  by (induction ls arbitrary: lines) auto

lemma append_lines_Inl: "append_lines lines nid ls = Inl e \<Longrightarrow> e = IndexError"
  by (induction ls arbitrary: lines) (auto split: if_splits)

lemma visit_length: "visit lines nid n = Inr lines' \<Longrightarrow> length lines' = length lines"
  by (auto simp: visit_def split: if_splits dest: append_lines_length)

lemma visit_Inl: "visit lines nid n = Inl e \<Longrightarrow> e = IndexError"
  by (auto simp: visit_def split: if_splits dest: append_lines_Inl)

lemma visit_Inr_iff: "(\<exists>lines'. visit lines nid n = Inr lines') \<longleftrightarrow> fits (length lines) n"
proof (cases "0 < line (start_position n)")
  case False
  then show ?thesis by (simp add: visit_def fits_def)
next
  case True
  have "(\<forall>l\<in>set [line (start_position n) ..< line (end_position n) + 1]. l - 1 < length lines)
        \<longleftrightarrow> (line (start_position n) \<le> line (end_position n) \<longrightarrow> line (end_position n) \<le> length lines)"
    using True by (auto simp: less_Suc_eq_le) 
  with True show ?thesis
    by (simp add: visit_def fits_def append_lines_Inr_iff del: upt_Suc)
qed

lemma nodes_of_unfold: "set (nodes_of n) = insert n (\<Union>c\<in>set (children n). set (nodes_of c))"
  by (cases n) auto

lemma snd_child_entries: "snd ` set (child_entries nid n) = set (children n)"
proof -
  have "map snd (child_entries nid n) = map snd (enumerate 0 (children n))"
    by (simp add: child_entries_def case_prod_beta comp_def)
  then have "map snd (child_entries nid n) = children n" by simp
  then show ?thesis by (metis set_map)
qed

lemma queue_fits_step:
  assumes "queue \<noteq> []"
  shows "queue_fits k queue \<longleftrightarrow>
         fits k (snd (last queue)) \<and>
         queue_fits k (butlast queue @ child_entries (fst (last queue)) (snd (last queue)))"
proof -
  from assms have q: "set queue = insert (last queue) (set (butlast queue))"
    by (metis append_butlast_last_id list.simps(15) rotate1.simps(2) set_rotate1)
  have c: "(\<forall>q\<in>set (child_entries (fst (last queue)) (snd (last queue))).
              \<forall>m\<in>set (nodes_of (snd q)). fits k m)
           \<longleftrightarrow> (\<forall>c\<in>set (children (snd (last queue))). \<forall>m\<in>set (nodes_of c). fits k m)"
    using snd_child_entries [of "fst (last queue)" "snd (last queue)"] by force
  show ?thesis
    unfolding queue_fits_def q using c
    by (auto simp: nodes_of_unfold [of "snd (last queue)"] ball_Un)
qed

lemma l2n_loop_result:
  "l2n_loop queue lines =
     (if queue_fits (length lines) queue
      then Inr (projr (l2n_loop queue lines)) else Inl IndexError)
   \<and> (queue_fits (length lines) queue \<longrightarrow> length (projr (l2n_loop queue lines)) = length lines)"
proof (induction queue lines rule: l2n_loop.induct)
  case (1 queue lines)
  show ?case
  proof (cases "queue = []")
    case True
    then show ?thesis by (simp add: l2n_loop.simps queue_fits_def)
  next
    case ne: False
    let ?v = "visit lines (fst (last queue)) (snd (last queue))"
    show ?thesis
    proof (cases ?v)
      case (Inl e)
      then have "e = IndexError" by (rule visit_Inl)
      moreover from Inl have "\<not> fits (length lines) (snd (last queue))"
        using visit_Inr_iff [of lines "fst (last queue)" "snd (last queue)"] by auto
      ultimately show ?thesis
        using ne Inl queue_fits_step [OF ne, of "length lines"]
        by (simp add: l2n_loop.simps [of queue])
    next
      case (Inr lines')
      then have len: "length lines' = length lines" by (rule visit_length)
      from Inr have f: "fits (length lines) (snd (last queue))"
        using visit_Inr_iff [of lines "fst (last queue)" "snd (last queue)"] by auto
      have eq: "l2n_loop queue lines =
            l2n_loop (butlast queue @ child_entries (fst (last queue)) (snd (last queue))) lines'"
        using ne Inr by (simp add: l2n_loop.simps [of queue])
      show ?thesis
        using "1.IH" [OF ne Inr] f queue_fits_step [OF ne, of "length lines"]
        unfolding eq len by auto
    qed
  qed
qed

lemma Line2Nodes_ok:
  assumes "\<forall>n\<in>set (nodes_of uast). fits nlines n"
  shows "\<exists>lm. Line2Nodes nlines uast = Inr lm \<and> length lm = nlines"
proof -
  have "queue_fits (length (replicate nlines ([] :: node_id list))) [([], uast)]"
    using assms by (simp add: queue_fits_def)
  with l2n_loop_result [of "[([], uast)]" "replicate nlines []"]
  have "l2n_loop [([], uast)] (replicate nlines [])
          = Inr (projr (l2n_loop [([], uast)] (replicate nlines [])))"
       "length (projr (l2n_loop [([], uast)] (replicate nlines []))) = nlines"
    by (simp_all del: length_replicate) (simp_all)
  then show ?thesis unfolding Line2Nodes_def by blast
qed

lemma Line2Nodes_fail:
  assumes "\<not> (\<forall>n\<in>set (nodes_of uast). fits nlines n)"
  shows "Line2Nodes nlines uast = Inl IndexError"
proof -
  have "\<not> queue_fits (length (replicate nlines ([] :: node_id list))) [([], uast)]"
    using assms by (simp add: queue_fits_def)
  with l2n_loop_result [of "[([], uast)]" "replicate nlines []"]
  show ?thesis unfolding Line2Nodes_def by presburger
qed

subsection \<open>Walks\<close>

lemma walk_empty [simp]: "walk rank {} = []"
  by (simp add: walk_def)

lemma set_walk: "finite s \<Longrightarrow> set (walk rank s) = s"
  by (simp add: walk_def)

lemma distinct_walk: "distinct (walk rank s)"
  by (simp add: walk_def)

lemma length_walk: "length (walk rank s) = card s"
proof (cases "finite s")
  case True
  then show ?thesis by (simp add: walk_def)
next
  case False
  then show ?thesis by (simp add: walk_def)
qed


subsection \<open>The first half of treediff\<close>

lemma scan_unchanged:
  "interval_add st = [] \<Longrightarrow> interval_rm st = [] \<Longrightarrow>
   \<exists>st'. scan st (map (\<lambda>l. ''  '' @ l) ls) = Inr st' \<and> intervals st' = intervals st"
proof (induction ls arbitrary: st)
  case Nil
  then show ?case by simp
next
  case (Cons l ls)
  let ?st = "st\<lparr>line_before := line_before st + 1, line_after := line_after st + 1\<rparr>"
  have step: "scan_step st (''  '' @ l) = Inr ?st"
    using Cons.prems by simp
  have "interval_add ?st = []" "interval_rm ?st = []" using Cons.prems by simp_all
  from Cons.IH [OF this] step show ?case by simp
qed

lemma adjust_seqdiff_unchanged:
  "adjust_seqdiff (map (\<lambda>l. ''  '' @ l) ls) src_after line2nodes = Inr []"
proof -
  have "interval_add scan_init = []" "interval_rm scan_init = []"
    by (simp_all add: scan_init_def)
  from scan_unchanged [OF this, of ls]
  obtain st' where "scan scan_init (map (\<lambda>l. ''  '' @ l) ls) = Inr st'"
    and "intervals st' = intervals scan_init" by blast
  then show ?thesis by (simp add: adjust_seqdiff_def raw_intervals_def scan_init_def)
qed

lemma getitem_range_finite: "getitem_range lm se = Inr S \<Longrightarrow> finite S"
  by (cases se) (auto simp: getitem_range_def split: if_splits)

lemma filter_changed_finite: "filter_changed ls lm = Inr S \<Longrightarrow> finite S"
  by (induction ls arbitrary: S) (auto split: sum.splits dest: getitem_range_finite)

lemma white_lists_finite:
  "white_lists E src1 uast1 src2 uast2 = Inr (wl1, wl2) \<Longrightarrow> finite wl1 \<and> finite wl2"
  by (auto simp: white_lists_def split: sum.splits dest: filter_changed_finite)

subsection \<open>The script compiler\<close>

lemma finite_assigned: "finite (assigned n1 row_ind)"
  by (simp add: assigned_def)

lemma finite_deleted: "finite (deleted threshold nseeds D n1 row_ind)"
  by (simp add: deleted_def finite_assigned)

lemma finite_modified: "finite (modified threshold nseeds D seq1 seq2 sm1 sm2 n1 row_ind)"
  by (simp add: modified_def finite_assigned)

lemma deleted_antimono:
  assumes "threshold \<le> threshold'"
  shows "deleted threshold' nseeds D n1 row_ind \<subseteq> deleted threshold nseeds D n1 row_ind"
proof -
  have "threshold * real nseeds \<le> threshold' * real nseeds"
    using assms by (simp add: mult_right_mono)
  then show ?thesis by (auto simp: deleted_def)
qed

lemma modified_mono:
  assumes "threshold \<le> threshold'"
  shows "modified threshold nseeds D seq1 seq2 sm1 sm2 n1 row_ind
         \<subseteq> modified threshold' nseeds D seq1 seq2 sm1 sm2 n1 row_ind"
  using deleted_antimono [OF assms, of nseeds D n1 row_ind] by (auto simp: modified_def)

lemma compile_script_counts:
  assumes "compile_script E threshold nseeds D row_ind seq1 seq2 sm1 sm2 = Inr script"
  shows "count_delete script = card (deleted threshold nseeds D (length seq1) row_ind)"
    and "count_modify script
           = card (modified threshold nseeds D seq1 seq2 sm1 sm2 (length seq1) row_ind)"
proof -
  let ?n1 = "length seq1"
  from assms have s: "script =
      map (\<lambda>(i, j). Delete (seq1 ! i))
           (walk (pair_rank E) (deleted threshold nseeds D ?n1 row_ind))
         @ map (\<lambda>j. Add (seq2 ! (j - ?n1)))
             (walk (index_rank E) (added threshold nseeds D ?n1 row_ind))
         @ map (\<lambda>(i, j). Modify (seq1 ! i) (seq2 ! (j - ?n1)))
             (walk (pair_rank E)
                (modified threshold nseeds D seq1 seq2 sm1 sm2 ?n1 row_ind))"
    by (simp add: compile_script_def Let_def split: if_splits)
  show "count_delete script = card (deleted threshold nseeds D ?n1 row_ind)"
    unfolding count_delete_def
    by (subst s) (simp add: filter_map comp_def case_prod_beta length_walk)
  show "count_modify script = card (modified threshold nseeds D seq1 seq2 sm1 sm2 ?n1 row_ind)"
    unfolding count_modify_def
    by (subst s) (simp add: filter_map comp_def case_prod_beta length_walk)
qed

subsection \<open>adjust\_seqdiff\<close>

lemma line_ids_Inr:
  "\<forall>l\<in>set ls. l < length l2n \<Longrightarrow> line_ids l2n ls = Inr (\<Union>l\<in>set ls. set (l2n ! l))"
  by (induction ls) (auto simp: getitem_def)

subsection \<open>Distances of the sample tree\<close>

lemma fold_dec_length: "length (fold (\<lambda>j c. c[j := c ! j - (1::int)]) js c) = length c"
  by (induction js arbitrary: c) auto

lemma fold_dec_nth:
  "distinct js \<Longrightarrow> j < length c \<Longrightarrow>
   fold (\<lambda>j c. c[j := c ! j - (1::int)]) js c ! j = (if j \<in> set js then c ! j - 1 else c ! j)"
proof (induction js arbitrary: c)
  case Nil
  then show ?case by simp
next
  case (Cons a js)
  have len: "j < length (c[a := c ! a - 1])" using Cons.prems by simp
  have d: "distinct js" "a \<notin> set js" using Cons.prems by simp_all
  show ?case
  proof (cases "a = j")
    case True
    with d Cons.IH [OF d(1) len] Cons.prems show ?thesis by simp
  next
    case False
    with Cons.IH [OF d(1) len] show ?thesis by simp
  qed
qed

lemma distinct_byte_matches: "distinct (byte_matches m b)"
proof -
  have "distinct (map fst (enumerate 0 m))" by simp
  then have "distinct (map fst (filter (\<lambda>(i, k, h). b \<in> set h) (enumerate 0 m)))"
    by (rule distinct_map_filter)
  then show ?thesis by (simp add: byte_matches_def)
qed

lemma set_byte_matches:
  "j < length m \<Longrightarrow> j \<in> set (byte_matches m b) \<longleftrightarrow> b \<in> set (snd (m ! j))"
  by (force simp: byte_matches_def in_set_enumerate_eq)

lemma fold_candidates:
  "length c = length m \<Longrightarrow>
   length (fold (\<lambda>b cand. fold (\<lambda>j c. c[j := c ! j - 1]) (byte_matches m b) cand) h c) = length m
   \<and> (\<forall>j<length m.
        fold (\<lambda>b cand. fold (\<lambda>j c. c[j := c ! j - 1]) (byte_matches m b) cand) h c ! j
        = c ! j - int (length (filter (\<lambda>b. b \<in> set (snd (m ! j))) h)))"
proof (induction h arbitrary: c)
  case Nil
  then show ?case by simp
next
  case (Cons b h)
  let ?c = "fold (\<lambda>j c. c[j := c ! j - 1]) (byte_matches m b) c"
  have len: "length ?c = length m" using Cons.prems by (simp add: fold_dec_length)
  have nth: "\<forall>j<length m. ?c ! j = (if b \<in> set (snd (m ! j)) then c ! j - 1 else c ! j)"
    using Cons.prems by (simp add: fold_dec_nth distinct_byte_matches set_byte_matches)
  from Cons.IH [OF len] nth show ?case by auto
qed

lemma candidates_eq:
  "candidates m h = map (\<lambda>p. - int (length (filter (\<lambda>b. b \<in> set (snd p)) h))) m"
proof (rule nth_equalityI)
  show "length (candidates m h)
        = length (map (\<lambda>p. - int (length (filter (\<lambda>b. b \<in> set (snd p)) h))) m)"
    using fold_candidates [of "replicate (length m) 0" m h] by (simp add: candidates_def)
next
  fix j assume "j < length (candidates m h)"
  then have j: "j < length m"
    using fold_candidates [of "replicate (length m) 0" m h] by (simp add: candidates_def)
  then show "candidates m h ! j
             = map (\<lambda>p. - int (length (filter (\<lambda>b. b \<in> set (snd p)) h))) m ! j"
    using fold_candidates [of "replicate (length m) 0" m h] by (simp add: candidates_def)
qed

lemma balance_555: "balance [(5, 2), (5, 1), (5, 0)] [5, 5, 5] 1 True = ([5, 5, 6], True)"
  by (simp add: balance.simps)

lemma hash_node_tree_p:
  assumes "5 \<le> length (permutation E seed 16)"
  shows "\<exists>h fp. length h = 16 \<and> length fp = 5 \<and>
     hash_node E seed white_list_p [] tree_p [] = Inr ((3, fp), [([0], h), ([3], h), ([], fp)])"
proof -
  have b: "balance [(5, Suc (Suc 0)), (5, Suc 0), (5, 0)] [5, 5, 5] 1 True = ([5, 5, 6], True)"
    using balance_555 by (simp add: numeral_2_eq_2)
  show ?thesis
    using assms
    by (simp add: tree_p_def leaf_def white_list_p_def combine_def allocate_def hash_self_def
        HASH_SIZE_def pos_def np_choice_def to_bytes_le_def b split: prod.splits)
qed

lemma init_dists_331: "init_dists 3 3 1 = dists_p"
  by code_simp

lemma accumulate_tree_p:
  assumes "length fp = 5"
  shows "\<exists>D. accumulate dists_p [([0], h), ([3], h), ([], fp)] 0 3
               [([0], h), ([3], h), ([], fp)] = Inr D
             \<and> length D = 6 \<and> length (D ! 2) = 6 \<and> D ! 2 ! 5 = 11"
  using assms
  by (simp add: dists_p_def candidates_eq add_row_def add_col_def np_iadd_def eval_nat_numeral)

lemma hash_rounds_tree_p:
  assumes "5 \<le> length (permutation E 0 16)"
  shows "\<exists>st D. hash_rounds E tree_p tree_p white_list_p white_list_p 1 [0 ..< 1] round_init = Inr st
           \<and> dists st = Some D \<and> length D = 6 \<and> length (D ! 2) = 6 \<and> D ! 2 ! 5 = 11
           \<and> map fst (fmap1 st) = [[0], [3], []] \<and> map fst (fmap2 st) = [[0], [3], []]
           \<and> supermap1 st = supermap2 st"
proof -
  from hash_node_tree_p [OF assms] obtain h fp where
    len: "length fp = 5" and
    hn: "hash_node E 0 white_list_p [] tree_p [] = Inr ((3, fp), [([0], h), ([3], h), ([], fp)])"
    by blast
  define m where "m = [([0] :: node_id, h), ([3], h), ([], fp)]"
  have lm: "length m = 3" by (simp add: m_def)
  from accumulate_tree_p [OF len, of h] obtain D where
    acc0: "accumulate dists_p [([0], h), ([3], h), ([], fp)] 0 3
             [([0], h), ([3], h), ([], fp)] = Inr D"
    and D: "length D = 6" "length (D ! 2) = 6" "D ! 2 ! 5 = 11"
    by (elim exE conjE)
  have acc: "accumulate (init_dists (length m) (length m) 1) m 0 (length m) m = Inr D"
    unfolding lm init_dists_331 using acc0 by (simp only: m_def)
  have hn': "hash_node E 0 white_list_p [] tree_p [] = Inr ((3, fp), m)"
    using hn by (simp add: m_def)
  have "hash_round E tree_p tree_p white_list_p white_list_p 1 0 round_init
        = Inr \<lparr>dists = Some D,
               supermap1 = add_supermap (\<lambda>k. []) m, supermap2 = add_supermap (\<lambda>k. []) m,
               fmap1 = m, fmap2 = m\<rparr>"
    using acc by (simp add: hash_round_def hn' round_init_def)
  then have "hash_rounds E tree_p tree_p white_list_p white_list_p 1 [0 ..< 1] round_init
        = Inr \<lparr>dists = Some D,
               supermap1 = add_supermap (\<lambda>k. []) m, supermap2 = add_supermap (\<lambda>k. []) m,
               fmap1 = m, fmap2 = m\<rparr>"
    by simp
  then show ?thesis using D by (simp add: m_def)
qed

lemma white_lists_tree_p:
  assumes "compare E (splitlines src_ab) (splitlines src_cb) = seqdiff_p"
  shows "white_lists E src_ab tree_p src_cb tree_p = Inr (white_list_p, white_list_p)"
proof -
  have 1: "Line2Nodes (length (splitlines src_ab)) tree_p = Inr [[[], [3], [0]], []]"
    by code_simp
  have 2: "Line2Nodes (length (splitlines src_cb)) tree_p = Inr [[[], [3], [0]], []]"
    by code_simp
  have 3: "adjust_seqdiff seqdiff_p (splitlines src_cb) [[[], [3], [0]], []] = Inr [(0, 1, 0, 1)]"
    by code_simp
  have 4: "filter_changed [(0, 1)] [[[], [3], [0]], []] = Inr white_list_p"
    by code_simp
  show ?thesis
    using 3 4 by (simp add: white_lists_def 1 2 assms)
qed

subsection \<open>Independence of the set walks\<close>













section \<open>Claims\<close>

text \<open>C1, as stated, fails: with an empty source and a tree holding a node on line 1,
  building the line index raises, and no script is returned.\<close>

theorem treediff_identity_counterexample:
  "treediff sample_env [] (leaf 1 1) [] (leaf 1 1) 10 = Inl IndexError"
  by code_simp

text \<open>C1, amended: when every node of the tree that covers lines lies within the lines of
  the source, and the line diff of the source with itself marks every line unchanged,
  \<^verbatim>\<open>treediff(src, tree, src, tree)\<close> returns the empty script.\<close>

theorem treediff_identity:
  assumes "\<forall>n\<in>set (nodes_of uast). fits (length (splitlines src)) n"
    and "compare E (splitlines src) (splitlines src) = map (\<lambda>l. ''  '' @ l) (splitlines src)"
  shows "treediff E src uast src uast nseeds = Inr []"
proof -
  from Line2Nodes_ok [OF assms(1)]
  obtain lm where "Line2Nodes (length (splitlines src)) uast = Inr lm" by blast
  moreover have "adjust_seqdiff (compare E (splitlines src) (splitlines src)) (splitlines src) lm
                  = Inr []"
    unfolding assms(2) by (rule adjust_seqdiff_unchanged)
  ultimately have "white_lists E src uast src uast = Inr ({}, {})"
    by (simp add: white_lists_def)
  then show ?thesis by (simp add: treediff_def)
qed

theorem treediff_identity_witness:
  "treediff sample_env src_axb tree3 src_axb tree3 10 = Inr []"
proof -
  have len: "length (splitlines src_axb) = 3" by code_simp
  have a: "\<forall>n\<in>set (nodes_of tree3). fits (length (splitlines src_axb)) n"
    unfolding len by (simp add: tree3_def leaf_def pos_def fits_def)
  have b: "compare sample_env (splitlines src_axb) (splitlines src_axb)
            = map (\<lambda>l. ''  '' @ l) (splitlines src_axb)"
    by code_simp
  show ?thesis by (rule treediff_identity [OF a b])
qed

text \<open>C2, at a failing input: a white-listed node on line 1 whose only child has no position.
  The one sample size is paired with the child's empty sketch, nothing is drawn, and
  \<^verbatim>\<open>numpy.hstack\<close> raises on the empty list, whatever the hash and the random draws are.\<close>

theorem hash_node_raises:
  "hash_node E seed {[]} []
     (Node tok rs (pos 1) (pos 1) [Node tok' rs' (pos 0) (pos 0) []]) [] = Inl ValueError"
  by (simp add: combine_def allocate_def hash_self_def HASH_SIZE_def pos_def split: prod.splits)

text \<open>C3, as stated, fails: with the matrix and the assignment fixed, raising the threshold
  from 8 to 16 turns the one \<^verbatim>\<open>delete\<close> (and its \<^verbatim>\<open>add\<close>) into a \<^verbatim>\<open>modify\<close>.\<close>

theorem threshold_monotonicity_counterexample:
  "compile_script sample_env 8 1 dists2 [1, 0] [[0]] [[0]] (\<lambda>k. [1]) (\<lambda>k. [2]) = Inr [Delete [0], Add [0]]
   \<and> compile_script sample_env 16 1 dists2 [1, 0] [[0]] [[0]] (\<lambda>k. [1]) (\<lambda>k. [2]) = Inr [Modify [0] [0]]"
  by code_simp

text \<open>C3, amended: with the matrix and the assignment fixed, raising the threshold never
  increases the number of \<^verbatim>\<open>delete\<close> operations and never decreases the number of \<^verbatim>\<open>modify\<close>
  operations.\<close>

theorem threshold_antitone_deletes:
  assumes "threshold \<le> threshold'"
    and "compile_script E threshold nseeds D row_ind seq1 seq2 sm1 sm2 = Inr script"
    and "compile_script E threshold' nseeds D row_ind seq1 seq2 sm1 sm2 = Inr script'"
  shows "count_delete script' \<le> count_delete script \<and> count_modify script \<le> count_modify script'"
proof -
  have "card (deleted threshold' nseeds D (length seq1) row_ind)
          \<le> card (deleted threshold nseeds D (length seq1) row_ind)"
    by (rule card_mono [OF finite_deleted deleted_antimono [OF assms(1)]])
  moreover
  have "card (modified threshold nseeds D seq1 seq2 sm1 sm2 (length seq1) row_ind)
          \<le> card (modified threshold' nseeds D seq1 seq2 sm1 sm2 (length seq1) row_ind)"
    by (rule card_mono [OF finite_modified modified_mono [OF assms(1)]])
  ultimately show ?thesis
    using compile_script_counts [OF assms(2)] compile_script_counts [OF assms(3)] by simp
qed

theorem threshold_antitone_deletes_witness:
  "count_delete [Modify [0] [0]] \<le> count_delete [Delete [0], Add [0]]
   \<and> count_modify [Delete [0], Add [0]] \<le> count_modify [Modify [0] [0]]"
proof -
  have a: "compile_script sample_env 8 1 dists2 [1, 0] [[0]] [[0]] (\<lambda>k. [1]) (\<lambda>k. [2])
             = Inr [Delete [0], Add [0]]" by code_simp
  have b: "compile_script sample_env 16 1 dists2 [1, 0] [[0]] [[0]] (\<lambda>k. [1]) (\<lambda>k. [2])
             = Inr [Modify [0] [0]]" by code_simp
  have c: "(8::real) \<le> 16" by simp
  show ?thesis by (rule threshold_antitone_deletes [OF c a b])
qed

text \<open>C4, at a failing input: a diff that is a single added line. The run of \<^verbatim>\<open>+\<close> entries ends
  the diff, no unchanged entry follows it, and no interval is formed or emitted.\<close>

theorem adjust_seqdiff_drops_trailing_run:
  "adjust_seqdiff [''+ a''] [''a''] line2nodes = Inr []"
  by (simp add: adjust_seqdiff_def raw_intervals_def scan_init_def)

text \<open>C5, as stated, fails: the two plain unions of per-line nodes have 2 members each and
  the interval is emitted unchanged, while the sets the tuple lookup gives for the two
  windows have 2 and 1 members.\<close>

theorem open_interval_counterexample:
  "Line2Nodes 6 tree6 = Inr line_map6
   \<and> raw_intervals seqdiff6 = Inr [([''+ q'', ''+ r''], [], 1, 1, 1, 3)]
   \<and> count_neighbors src6 [''+ q'', ''+ r''] 3 0 = Inr 1
   \<and> getitem_range line_map6 (1, 3) = Inr {[0], [1]}
   \<and> getitem_range line_map6 (1 + 1, 3 + 1) = Inr {[1]}
   \<and> adjust_seqdiff seqdiff6 src6 line_map6 = Inr [(1, 1, 1, 3)]"
  by code_simp

text \<open>C5, amended: for a raw interval with more than one added or removed line and
  \<^verbatim>\<open>neighbors > 0\<close>, the two sets compared are the plain unions of the nodes recorded for the
  lines of \<^verbatim>\<open>[start_after, end_after)\<close> and of that window shifted by \<^verbatim>\<open>neighbors\<close>; the interval is
  emitted unchanged exactly when they have the same number of members, and is split
  otherwise.\<close>

theorem adjust_interval_plain_union:
  assumes "\<not> (length iadd \<in> {0, 1} \<and> length irm \<in> {0, 1})"
    and "count_neighbors src_after iadd end_after 0 = Inr neighbors"
    and "neighbors > 0"
    and "end_after + neighbors \<le> length line2nodes"
  shows "adjust_interval src_after line2nodes
           (iadd, irm, start_before, end_before, start_after, end_after)
         = Inr (if card (\<Union>l\<in>{start_after ..< end_after}. set (line2nodes ! l))
                     = card (\<Union>l\<in>{start_after + neighbors ..< end_after + neighbors}.
                                set (line2nodes ! l))
                then [(start_before, end_before, start_after, end_after)]
                else (if end_before - start_before > 0
                      then [(start_before, end_before, start_after, start_after)] else [])
                     @ [(end_before + neighbors, end_before + neighbors,
                         start_after + neighbors, end_after + neighbors)])"
proof -
  have 1: "line_ids line2nodes [start_after ..< end_after]
             = Inr (\<Union>l\<in>{start_after ..< end_after}. set (line2nodes ! l))"
    using assms(4) line_ids_Inr [of "[start_after ..< end_after]" line2nodes] by simp
  have 2: "line_ids line2nodes [start_after + neighbors ..< end_after + neighbors]
             = Inr (\<Union>l\<in>{start_after + neighbors ..< end_after + neighbors}.
                      set (line2nodes ! l))"
    using assms(4)
      line_ids_Inr [of "[start_after + neighbors ..< end_after + neighbors]" line2nodes]
    by simp
  show ?thesis
    unfolding adjust_interval_def using assms(1,3) by (simp add: assms(2) 1 2)
qed

theorem adjust_interval_plain_union_witness:
  "adjust_interval src6 line_map6 ([''+ q'', ''+ r''], [], 1, 1, 1, 3) = Inr [(1, 1, 1, 3)]"
proof -
  have a: "\<not> (length [''+ q'', ''+ r''] \<in> {0, 1} \<and> length ([] :: string list) \<in> {0, 1})"
    by simp
  have b: "count_neighbors src6 [''+ q'', ''+ r''] 3 0 = Inr 1" by code_simp
  have c: "(1::nat) > 0" by simp
  have d: "3 + 1 \<le> length line_map6" by (simp add: line_map6_def)
  have e: "card (\<Union>l\<in>{1 ..< 3}. set (line_map6 ! l))
            = card (\<Union>l\<in>{1 + 1 ..< 3 + 1}. set (line_map6 ! l))"
    by code_simp
  from adjust_interval_plain_union [OF a b c d, of 1 1 1] e show ?thesis by simp
qed

text \<open>C6, at a failing input: a white-listed node on line 1 with a white-listed child on
  line 1 followed by a child without position. The two sample sizes 8 and 8 are paired
  with the first child and with the second child's empty sketch, so the fingerprint
  recorded for the node has 8 bytes.\<close>

theorem hash_node_short_fingerprint:
  assumes "length (permutation E seed 16) = 16"
  shows "\<exists>fp m. hash_node E seed {[], [0]} []
                  (Node tok rs (pos 1) (pos 1)
                     [Node tok1 rs1 (pos 1) (pos 1) [], Node tok2 rs2 (pos 0) (pos 0) []]) []
                = Inr ((2, fp), m)
              \<and> map_of m [] = Some fp \<and> length fp = 8"
  using assms
  by (simp add: combine_def allocate_def hash_self_def HASH_SIZE_def pos_def np_choice_def
      to_bytes_le_def split: prod.splits)

theorem hash_node_short_fingerprint_witness:
  "\<exists>fp m. hash_node sample_env 0 {[], [0]} []
            (Node [] [] (pos 1) (pos 1) [Node [] [] (pos 1) (pos 1) [], Node [] [] (pos 0) (pos 0) []]) []
          = Inr ((2, fp), m)
        \<and> map_of m [] = Some fp \<and> length fp = 8"
proof -
  have "length (permutation sample_env 0 16) = 16" by (simp add: sample_env_def)
  from hash_node_short_fingerprint [OF this] show ?thesis .
qed

text \<open>C7, at a failing input: two sources that differ in line 1, with the same tree on both
  sides. The tree's root records a fingerprint of 5 bytes (the defect of C6), so the
  distance between the root and its copy is \<^verbatim>\<open>16 - 5 = 11\<close>, above the threshold 8, while the
  supersketches are equal. When the assignment pairs the root with its copy, the pair is
  both in \<^verbatim>\<open>deleted\<close> and in \<^verbatim>\<open>exact\<close>.\<close>

theorem fingerprint_defect_breaks_partition:
  assumes "compare E (splitlines src_ab) (splitlines src_cb) = seqdiff_p"
    and "5 \<le> length (permutation E 0 16)"
  shows "white_lists E src_ab tree_p src_cb tree_p = Inr (white_list_p, white_list_p)
    \<and> (\<exists>st D. hash_rounds E tree_p tree_p white_list_p white_list_p 1 [0 ..< 1] round_init = Inr st
           \<and> dists st = Some D \<and> length D = 6
           \<and> (2 < length (lapjv E D) \<and> lapjv E D ! 2 = 5 \<longrightarrow>
                (2, 5) \<in> assigned 3 (lapjv E D)
              \<and> (2, 5) \<in> deleted (real_of_int HASH_SIZE / 2) 1 D 3 (lapjv E D)
              \<and> (2, 5) \<in> exact (map fst (fmap1 st)) (map fst (fmap2 st))
                            (supermap1 st) (supermap2 st) 3 (lapjv E D)))"
proof -
  from hash_rounds_tree_p [OF assms(2)] obtain st D where
    st: "hash_rounds E tree_p tree_p white_list_p white_list_p 1 [0 ..< 1] round_init = Inr st"
    and D: "dists st = Some D" "length D = 6" "D ! 2 ! 5 = 11"
    and seq: "map fst (fmap1 st) = [[0], [3], []]" "map fst (fmap2 st) = [[0], [3], []]"
    and sm: "supermap1 st = supermap2 st"
    by (elim exE conjE)
  have "(2, 5) \<in> assigned 3 (lapjv E D)
      \<and> (2, 5) \<in> deleted (real_of_int HASH_SIZE / 2) 1 D 3 (lapjv E D)
      \<and> (2, 5) \<in> exact (map fst (fmap1 st)) (map fst (fmap2 st))
                    (supermap1 st) (supermap2 st) 3 (lapjv E D)"
    if r: "2 < length (lapjv E D)" "lapjv E D ! 2 = 5"
  proof -
    have a: "(2, 5) \<in> assigned 3 (lapjv E D)"
      using r by (simp add: assigned_def in_set_enumerate_eq)
    have d: "(2, 5) \<in> deleted (real_of_int HASH_SIZE / 2) 1 D 3 (lapjv E D)"
      using a D(3) by (simp add: deleted_def HASH_SIZE_def)
    have e: "(2, 5) \<in> exact (map fst (fmap1 st)) (map fst (fmap2 st))
                         (supermap1 st) (supermap2 st) 3 (lapjv E D)"
      using a by (simp add: exact_def seq sm)
    from a d e show ?thesis by blast
  qed
  with st D(1,2) white_lists_tree_p [OF assms(1)] show ?thesis by blast
qed

theorem fingerprint_defect_breaks_partition_witness:
  "white_lists sample_env src_ab tree_p src_cb tree_p = Inr (white_list_p, white_list_p)
    \<and> (\<exists>st D. hash_rounds sample_env tree_p tree_p white_list_p white_list_p 1 [0 ..< 1] round_init
               = Inr st
           \<and> dists st = Some D
           \<and> (2, 5) \<in> assigned 3 (lapjv sample_env D)
           \<and> (2, 5) \<in> deleted (real_of_int HASH_SIZE / 2) 1 D 3 (lapjv sample_env D)
           \<and> (2, 5) \<in> exact (map fst (fmap1 st)) (map fst (fmap2 st))
                         (supermap1 st) (supermap2 st) 3 (lapjv sample_env D))"
proof -
  have a: "compare sample_env (splitlines src_ab) (splitlines src_cb) = seqdiff_p"
    by code_simp
  have b: "5 \<le> length (permutation sample_env 0 16)" by (simp add: sample_env_def)
  have c: "2 < length (lapjv sample_env D) \<and> lapjv sample_env D ! 2 = 5"
    if "length D = 6" for D :: matrix
    using that by (simp add: sample_env_def)
  from fingerprint_defect_breaks_partition [OF a b] c show ?thesis by blast
qed

text \<open>C8: once the two white lists are computed, an empty before-list gives exactly one
  \<^verbatim>\<open>add\<close> per node of the after-list, an empty after-list gives exactly one \<^verbatim>\<open>delete\<close> per node
  of the before-list, and either way a script is returned, not an error.\<close>

theorem treediff_short_circuit:
  assumes "white_lists E src1 uast1 src2 uast2 = Inr (wl1, wl2)"
  shows "(wl1 = {} \<longrightarrow>
            (\<exists>r. treediff E src1 uast1 src2 uast2 nseeds = Inr r \<and> distinct r \<and> set r = Add ` wl2))
       \<and> (wl2 = {} \<longrightarrow>
            (\<exists>r. treediff E src1 uast1 src2 uast2 nseeds = Inr r \<and> distinct r \<and> set r = Delete ` wl1))"
proof -
  from white_lists_finite [OF assms] have fin: "finite wl1" "finite wl2" by simp_all
  have inj: "inj Add" "inj Delete" by (simp_all add: inj_def)
  show ?thesis
    using assms fin
    by (auto simp: treediff_def distinct_map distinct_walk set_walk intro: inj_onI)
qed

theorem treediff_short_circuit_witness:
  "(\<exists>r. treediff sample_env src_ab (leaf 1 2) src_axb tree3 10 = Inr r \<and> distinct r
        \<and> set r = Add ` {[1]})
   \<and> (\<exists>r. treediff sample_env src_axb tree3 src_ab (leaf 1 2) 10 = Inr r \<and> distinct r
        \<and> set r = Delete ` {[1]})"
proof -
  have a: "white_lists sample_env src_ab (leaf 1 2) src_axb tree3 = Inr ({}, {[1]})"
    by code_simp
  have b: "white_lists sample_env src_axb tree3 src_ab (leaf 1 2) = Inr ({[1]}, {})"
    by code_simp
  from treediff_short_circuit [OF a, of 10] treediff_short_circuit [OF b, of 10]
  show ?thesis by simp
qed




text \<open>C10, as stated, fails: a node with start line 2 and end line 1 covers no line, so the
  line index of a source of 0 lines is built although the end line exceeds 0.\<close>

theorem Line2Nodes_precondition_counterexample:
  "Line2Nodes 0 (leaf 2 1) = Inr []
   \<and> line (start_position (leaf 2 1)) > 0 \<and> \<not> line (end_position (leaf 2 1)) \<le> 0"
  by code_simp

text \<open>C10, amended: the line index is built exactly when every node with
  \<^verbatim>\<open>0 < start_position.line <= end_position.line\<close> has \<^verbatim>\<open>end_position.line <= nlines\<close>, and it
  then has \<^verbatim>\<open>nlines\<close> entries; otherwise the construction raises an IndexError.\<close>

theorem Line2Nodes_succeeds_iff:
  "if \<forall>n\<in>set (nodes_of uast). fits nlines n
   then \<exists>lm. Line2Nodes nlines uast = Inr lm \<and> length lm = nlines
   else Line2Nodes nlines uast = Inl IndexError"
  using Line2Nodes_ok [of uast nlines] Line2Nodes_fail [of uast nlines] by simp

theorem Line2Nodes_succeeds_iff_witness:
  "(\<exists>lm. Line2Nodes 2 (leaf 1 2) = Inr lm \<and> length lm = 2)
   \<and> Line2Nodes 1 (leaf 1 2) = Inl IndexError"
  using Line2Nodes_succeeds_iff [of "leaf 1 2" 2] Line2Nodes_succeeds_iff [of "leaf 1 2" 1]
  by (simp add: leaf_def pos_def fits_def)

end
